theory Spec2Isabelle
  imports Main
begin

section \<open>Values and helpers\<close>

text \<open>
  Every public function of \<^verbatim>\<open>lib/acl.js\<close> takes "a string or an array of strings"
  (\<^verbatim>\<open>contract(arguments).params("string", "string|array")\<close>). The two shapes are kept
  apart, because the code branches on \<^verbatim>\<open>Array.isArray\<close> and on JavaScript truthiness.
\<close>

datatype strs = Str string | Arr "string list"

text \<open>\<^verbatim>\<open>function makeArray(arr) { return Array.isArray(arr) ? arr : [arr]; }\<close>\<close>

fun makeArray :: "strs \<Rightarrow> string list" where
  "makeArray (Arr xs) = xs"
| "makeArray (Str s) = [s]"

text \<open>
  JavaScript truthiness of an optional "string or array" argument: \<^verbatim>\<open>undefined\<close> and the
  empty string are falsy, every array (also the empty one) is truthy.
\<close>

fun truthy :: "strs option \<Rightarrow> bool" where
  "truthy None = False"
| "truthy (Some (Str s)) = (s \<noteq> [])"
| "truthy (Some (Arr xs)) = True"

text \<open>\<^verbatim>\<open>function allowsBucket(role) { return "allows_" + role; }\<close>\<close>

definition allowsBucket :: "string \<Rightarrow> string" where
  "allowsBucket resource = ''allows_'' @ resource"

text \<open>\<^verbatim>\<open>function keyFromAllowsBucket(str) { return str.replace(/^allows_/, ""); }\<close>\<close>

definition keyFromAllowsBucket :: "string \<Rightarrow> string" where
  "keyFromAllowsBucket str = (if take 7 str = ''allows_'' then drop 7 str else str)"

text \<open>
  The lodash helpers the code uses. \<^verbatim>\<open>_.uniq\<close> keeps the first occurrence of every
  element, \<^verbatim>\<open>_.union(a, b)\<close> is the duplicate-free concatenation, \<^verbatim>\<open>_.without\<close>
  drops the listed values; \<^verbatim>\<open>indexOf(x) !== -1\<close> is list membership.
\<close>

fun uniq :: "'a list \<Rightarrow> 'a list" where
  "uniq [] = []"
| "uniq (x # xs) = x # uniq (filter (\<lambda>y. y \<noteq> x) xs)"

definition lodash_union :: "'a list \<Rightarrow> 'a list \<Rightarrow> 'a list" where
  "lodash_union xs ys = uniq (xs @ ys)"

definition without :: "'a list \<Rightarrow> 'a list \<Rightarrow> 'a list" where
  "without xs vs = filter (\<lambda>x. x \<notin> set vs) xs"

section \<open>The storage backend\<close>

text \<open>
  The backend of the repository is the MongoDB backend. A bucket is a collection, a key
  is a document \<^verbatim>\<open>{key: k, v1: true, v2: true, ...}\<close> of that collection, and the value
  set of the key is the set of the other field names of the document. A document is
  modelled by its bucket, its key and the list of its value fields, the database by the
  list of its documents in insertion order.

  What the model leaves out, and where it is visible:
  \<^item> \<^verbatim>\<open>encodeText\<close>/\<^verbatim>\<open>decodeText\<close> (URI encoding of keys and field names on the way
    in, decoding on the way out) are taken as inverse to each other, so that a name is
    stored as itself;
  \<^item> a bucket is identified with its collection. This is the layout of the backend with
    \<^verbatim>\<open>useSingle\<close> (every document carries \<^verbatim>\<open>_bucketname\<close>) and of the
    multi-collection layout with raw collection names;
  \<^item> the index creation queued by \<^verbatim>\<open>add\<close> changes no document and is left out;
  \<^item> \<^verbatim>\<open>end\<close> starts every queued operation and awaits them all; the model applies them in
    the order they were queued;
  \<^item> the \<^verbatim>\<open>_id\<close> field the database gives every document is not represented. A value
    named \<^verbatim>\<open>_id\<close> or \<^verbatim>\<open>_bucketname\<close> is kept as a field like any other (what the
    database does with a write to its own \<^verbatim>\<open>_id\<close> is not modelled); \<^verbatim>\<open>get\<close> and
    \<^verbatim>\<open>union\<close> hide such a field in any case;
  \<^item> the order of the fields of a document is the order in which they were set
    (JavaScript moves property names that are array indices to the front).
\<close>

record doc =
  dbucket :: string
  dkey :: string
  dfields :: "string list"

type_synonym db = "doc list"

text \<open>
  The field names \<^verbatim>\<open>get\<close> and \<^verbatim>\<open>union\<close> strip from what they return:
  \<^verbatim>\<open>_.without(_.keys(doc), "key", "_id", "_bucketname")\<close>.
\<close>

definition reserved :: "string list" where
  "reserved = [''key'', ''_id'', ''_bucketname'']"

definition matches :: "string \<Rightarrow> string \<Rightarrow> doc \<Rightarrow> bool" where
  "matches bucket k d = (dbucket d = bucket \<and> dkey d = k)"

definition matchesIn :: "string \<Rightarrow> string list \<Rightarrow> doc \<Rightarrow> bool" where
  "matchesIn bucket ks d = (dbucket d = bucket \<and> dkey d \<in> set ks)"

text \<open>
  \<^verbatim>\<open>get(bucket, key)\<close>: \<^verbatim>\<open>findOne({key: key})\<close>; no document gives \<^verbatim>\<open>[]\<close>,
  a document gives its field names without the reserved ones.
\<close>

definition backend_get :: "db \<Rightarrow> string \<Rightarrow> string \<Rightarrow> string list" where
  "backend_get st bucket k =
     (case find (matches bucket k) st of
        None \<Rightarrow> []
      | Some d \<Rightarrow> without (dfields d) reserved)"

text \<open>
  \<^verbatim>\<open>union(bucket, keys)\<close>: \<^verbatim>\<open>find({key: {$in: keys}})\<close>; no document gives \<^verbatim>\<open>[]\<close>,
  otherwise the field names of all the documents found, made unique, without the
  reserved ones.
\<close>

definition backend_union :: "db \<Rightarrow> string \<Rightarrow> string list \<Rightarrow> string list" where
  "backend_union st bucket ks =
     (let docs = filter (matchesIn bucket ks) st in
      if docs = [] then []
      else without (uniq (concat (map dfields docs))) reserved)"

text \<open>
  The three update statements of the backend, as the database executes them.

  \<^verbatim>\<open>updateMany({key: k}, {$set: doc}, {upsert: true})\<close> adds the fields to every
  document of the key and inserts a document when there is none. Fields already there
  keep their place, new ones are appended. A field named \<^verbatim>\<open>key\<close> among them overwrites
  the key of the document with \<^verbatim>\<open>true\<close>: no query of the backend finds that document
  again, and the model drops it.

  \<^verbatim>\<open>updateMany({key: k}, {$unset: doc}, {upsert: true})\<close> removes the fields from every
  document of the key, and also inserts a document when there is none. Unsetting the
  field \<^verbatim>\<open>key\<close> detaches the document in the same way.

  \<^verbatim>\<open>deleteMany({key: {$in: keys}})\<close> deletes the documents of the keys.
\<close>

definition setFields :: "string list \<Rightarrow> string list \<Rightarrow> string list" where
  "setFields fs vs = fs @ filter (\<lambda>v. v \<notin> set fs) (uniq vs)"

definition updateMany_set :: "string \<Rightarrow> string \<Rightarrow> string list \<Rightarrow> db \<Rightarrow> db" where
  "updateMany_set bucket k vs st =
     (if ''key'' \<in> set vs then filter (\<lambda>d. \<not> matches bucket k d) st
      else if list_ex (matches bucket k) st
      then map (\<lambda>d. if matches bucket k d then d\<lparr>dfields := setFields (dfields d) vs\<rparr> else d) st
      else st @ [\<lparr>dbucket = bucket, dkey = k, dfields = uniq vs\<rparr>])"

definition updateMany_unset :: "string \<Rightarrow> string \<Rightarrow> string list \<Rightarrow> db \<Rightarrow> db" where
  "updateMany_unset bucket k vs st =
     (if ''key'' \<in> set vs then filter (\<lambda>d. \<not> matches bucket k d) st
      else if list_ex (matches bucket k) st
      then map (\<lambda>d. if matches bucket k d then d\<lparr>dfields := without (dfields d) vs\<rparr> else d) st
      else st @ [\<lparr>dbucket = bucket, dkey = k, dfields = []\<rparr>])"

definition deleteMany :: "string \<Rightarrow> string list \<Rightarrow> db \<Rightarrow> db" where
  "deleteMany bucket ks st = filter (\<lambda>d. \<not> matchesIn bucket ks d) st"

text \<open>
  A transaction is the array of functions \<^verbatim>\<open>begin\<close> returns and \<^verbatim>\<open>add\<close>,
  \<^verbatim>\<open>del\<close> and \<^verbatim>\<open>remove\<close> push to: here the list of the queued operations.
  Nothing reaches the database before \<^verbatim>\<open>end\<close>.
\<close>

datatype op = OpAdd string string strs | OpDel string strs | OpRemove string string strs

type_synonym transaction = "op list"

datatype error = KeyNotAllowed

definition backend_begin :: transaction where
  "backend_begin = []"

text \<open>
  \<^verbatim>\<open>add\<close> throws on the key \<^verbatim>\<open>"key"\<close> before it queues anything:
  \<^verbatim>\<open>if (key === "key") throw new Error("Key name 'key' is not allowed.");\<close>
\<close>

definition backend_add :: "transaction \<Rightarrow> string \<Rightarrow> string \<Rightarrow> strs \<Rightarrow> error + transaction" where
  "backend_add tr bucket k vs =
     (if k = ''key'' then Inl KeyNotAllowed else Inr (tr @ [OpAdd bucket k vs]))"

definition backend_del :: "transaction \<Rightarrow> string \<Rightarrow> strs \<Rightarrow> transaction" where
  "backend_del tr bucket ks = tr @ [OpDel bucket ks]"

definition backend_remove :: "transaction \<Rightarrow> string \<Rightarrow> string \<Rightarrow> strs \<Rightarrow> transaction" where
  "backend_remove tr bucket k vs = tr @ [OpRemove bucket k vs]"

fun apply_op :: "op \<Rightarrow> db \<Rightarrow> db" where
  "apply_op (OpAdd bucket k vs) st = updateMany_set bucket k (makeArray vs) st"
| "apply_op (OpDel bucket ks) st = deleteMany bucket (makeArray ks) st"
| "apply_op (OpRemove bucket k vs) st = updateMany_unset bucket k (makeArray vs) st"

definition backend_end :: "transaction \<Rightarrow> db \<Rightarrow> db" where
  "backend_end tr st = fold apply_op tr st"

section \<open>The access control list\<close>

text \<open>
  The bucket names are the defaults of the constructor (\<^verbatim>\<open>options.buckets\<close>).
\<close>

abbreviation meta_bucket :: string where "meta_bucket \<equiv> ''meta''"
abbreviation parents_bucket :: string where "parents_bucket \<equiv> ''parents''"
abbreviation resources_bucket :: string where "resources_bucket \<equiv> ''resources''"
abbreviation roles_bucket :: string where "roles_bucket \<equiv> ''roles''"
abbreviation users_bucket :: string where "users_bucket \<equiv> ''users''"

text \<open>
  A call that throws leaves the function at once: the transaction it was filling is
  never ended, and the database is as it was. \<open>bindE\<close> sequences such calls.
\<close>

definition bindE :: "error + 'a \<Rightarrow> ('a \<Rightarrow> error + 'b) \<Rightarrow> error + 'b" where
  "bindE m f = (case m of Inl e \<Rightarrow> Inl e | Inr x \<Rightarrow> f x)"

text \<open>\<^verbatim>\<open>for (const k of ks) await this.backend.add(transaction, bucket, k, values)\<close>\<close>

fun add_each :: "transaction \<Rightarrow> string \<Rightarrow> string list \<Rightarrow> strs \<Rightarrow> error + transaction" where
  "add_each tr bucket [] vs = Inr tr"
| "add_each tr bucket (k # ks) vs = bindE (backend_add tr bucket k vs) (\<lambda>tr'. add_each tr' bucket ks vs)"

subsection \<open>Users and roles\<close>



definition userRoles :: "db \<Rightarrow> string \<Rightarrow> string list" where
  "userRoles st userId = backend_get st users_bucket userId"

definition roleUsers :: "db \<Rightarrow> string \<Rightarrow> string list" where
  "roleUsers st roleName = backend_get st roles_bucket roleName"

definition hasRole :: "db \<Rightarrow> string \<Rightarrow> string \<Rightarrow> bool" where
  "hasRole st userId rolename = (rolename \<in> set (userRoles st userId))"

subsection \<open>The role hierarchy\<close>




subsection \<open>Grants\<close>

text \<open>
  \<^verbatim>\<open>allow(roles, resources, permissions)\<close>, the form with three arguments (the form with
  one argument, an array of records, calls this one for every record).
\<close>

fun allow_grants :: "transaction \<Rightarrow> string list \<Rightarrow> string list \<Rightarrow> strs \<Rightarrow> error + transaction" where
  "allow_grants tr [] roles permissions = Inr tr"
| "allow_grants tr (resource # resources) roles permissions =
     bindE (add_each tr (allowsBucket resource) roles permissions)
       (\<lambda>tr'. allow_grants tr' resources roles permissions)"

definition allow :: "db \<Rightarrow> strs \<Rightarrow> strs \<Rightarrow> strs \<Rightarrow> error + db" where
  "allow st roles resources permissions =
     (let roles' = makeArray roles; resources' = makeArray resources in
      bindE (backend_add backend_begin meta_bucket ''roles'' (Arr roles')) (\<lambda>t1.
      bindE (allow_grants t1 resources' roles' permissions) (\<lambda>t2.
      bindE (add_each t2 resources_bucket roles' (Arr resources')) (\<lambda>t3.
      Inr (backend_end t3 st)))))"

text \<open>
  \<^verbatim>\<open>removePermissions\<close> runs two transactions. The first removes the permissions (or,
  without permissions, the whole grant and the resource of the role). The second reads
  every grant back and takes the resource from the role where no permission is left.
\<close>

definition removePermissions :: "db \<Rightarrow> string \<Rightarrow> string list \<Rightarrow> strs option \<Rightarrow> db" where
  "removePermissions st role resources permissions =
     (let t1 = fold (\<lambda>resource tr.
                  if truthy permissions
                  then backend_remove tr (allowsBucket resource) role (the permissions)
                  else backend_remove (backend_del tr (allowsBucket resource) (Str role))
                         resources_bucket role (Str resource)) resources backend_begin;
          st1 = backend_end t1 st;
          t2 = fold (\<lambda>resource tr.
                  if backend_get st1 (allowsBucket resource) role = []
                  then backend_remove tr resources_bucket role (Str resource)
                  else tr) resources backend_begin
      in backend_end t2 st1)"

definition removeAllow :: "db \<Rightarrow> string \<Rightarrow> strs \<Rightarrow> strs option \<Rightarrow> db" where
  "removeAllow st role resources permissions =
     (let resources' = makeArray resources;
          permissions' = (if truthy permissions then Some (Arr (makeArray (the permissions)))
                          else permissions)
      in removePermissions st role resources' permissions')"

subsection \<open>Queries\<close>

text \<open>
  The recursive queries follow the parents of the roles level by level and have no guard
  against a cycle ("This function will not handle circular dependencies and result in a
  crash"). They are partial functions: \<open>None\<close> is the run that does not return.
\<close>

definition rolesParents :: "db \<Rightarrow> string list \<Rightarrow> string list" where
  "rolesParents st roles = backend_union st parents_bucket roles"

partial_function (option) allRoles :: "db \<Rightarrow> string list \<Rightarrow> string list option" where
  "allRoles st roleNames =
     (let parents = rolesParents st roleNames in
      if parents \<noteq> []
      then Option.bind (allRoles st parents) (\<lambda>parentRoles. Some (lodash_union roleNames parentRoles))
      else Some roleNames)"



partial_function (option) checkPermissions :: "db \<Rightarrow> string list \<Rightarrow> string \<Rightarrow> string list \<Rightarrow> bool option" where
  "checkPermissions st roles resource permissions =
     (let resourcePermissions' = backend_union st (allowsBucket resource) roles in
      if ''*'' \<in> set resourcePermissions' then Some True
      else let permissions' = filter (\<lambda>p. p \<notin> set resourcePermissions') permissions in
           if permissions' = [] then Some True
           else let parents = backend_union st parents_bucket roles in
                if parents \<noteq> [] then checkPermissions st parents resource permissions'
                else Some False)"

definition areAnyRolesAllowed :: "db \<Rightarrow> strs \<Rightarrow> string \<Rightarrow> strs \<Rightarrow> bool option" where
  "areAnyRolesAllowed st roles resource permissions =
     (let roles' = makeArray roles; permissions' = makeArray permissions in
      if roles' = [] then Some False
      else checkPermissions st roles' resource permissions')"

definition isAllowed :: "db \<Rightarrow> string \<Rightarrow> string \<Rightarrow> strs \<Rightarrow> bool option" where
  "isAllowed st userId resource permissions =
     (let roles = backend_get st users_bucket userId in
      if roles \<noteq> [] then areAnyRolesAllowed st (Arr roles) resource permissions
      else Some False)"

subsection \<open>Permissions of a user\<close>

text \<open>
  The result of \<^verbatim>\<open>allowedPermissions\<close> is a JavaScript object filled by assignments
  \<^verbatim>\<open>result[resource] = ...\<close>: an association list with one entry for every name, a new
  name appended, an old one overwritten in place.
\<close>

type_synonym 'v js_object = "(string \<times> 'v) list"

fun js_put :: "'v js_object \<Rightarrow> string \<Rightarrow> 'v \<Rightarrow> 'v js_object" where
  "js_put [] k v = [(k, v)]"
| "js_put ((k', v') # obj) k v = (if k' = k then (k, v) # obj else (k', v') # js_put obj k v)"





subsection \<open>Grants given as records\<close>






section \<open>Notions of the specification\<close>

text \<open>
  The parent relation of a database: \<open>(c, p)\<close> when \<open>p\<close> is among the parents the
  code reads for the role \<open>c\<close>. The hierarchy is acyclic when this relation is.
\<close>

definition parents_rel :: "db \<Rightarrow> (string \<times> string) set" where
  "parents_rel st = {(c, p). p \<in> set (rolesParents st [c])}"

text \<open>The number of the proper ancestors of a role, which decreases along every edge.\<close>

definition rank :: "db \<Rightarrow> string \<Rightarrow> nat" where
  "rank st r = card ((parents_rel st)\<^sup>+ `` {r})"

definition max_rank :: "db \<Rightarrow> string list \<Rightarrow> nat" where
  "max_rank st roles = Max (insert 0 (rank st ` set roles))"

text \<open>
  The algorithm of \<^verbatim>\<open>areAnyRolesAllowed\<close> in the words of the specification, as the
  relation "the algorithm succeeds": the union of the permissions granted to the roles
  directly on the resource contains the wildcard; or no requested permission is left
  once the satisfied ones are removed; or the parents, one level up, are not empty and
  the algorithm succeeds on them with the permissions still unsatisfied.
\<close>

definition granted :: "db \<Rightarrow> string list \<Rightarrow> string \<Rightarrow> string set" where
  "granted st roles resource = set (backend_union st (allowsBucket resource) roles)"

inductive spec_succeeds :: "db \<Rightarrow> string list \<Rightarrow> string \<Rightarrow> string list \<Rightarrow> bool" for st :: db where
  wildcard: "''*'' \<in> granted st roles resource \<Longrightarrow> spec_succeeds st roles resource requested"
| satisfied: "set requested \<subseteq> granted st roles resource \<Longrightarrow> spec_succeeds st roles resource requested"
| inherited: "rolesParents st roles \<noteq> [] \<Longrightarrow>
     spec_succeeds st (rolesParents st roles) resource
       (filter (\<lambda>p. p \<notin> granted st roles resource) requested) \<Longrightarrow>
     spec_succeeds st roles resource requested"

definition spec_areAnyRolesAllowed :: "db \<Rightarrow> string list \<Rightarrow> string \<Rightarrow> string list \<Rightarrow> bool" where
  "spec_areAnyRolesAllowed st roles resource requested =
     (roles \<noteq> [] \<and> spec_succeeds st roles resource requested)"


section \<open>Example databases\<close>

text \<open>
  A small database: \<open>joed\<close> is a \<open>member\<close>, \<open>ann\<close> an \<open>editor\<close> and \<open>bob\<close> a
  \<open>guest\<close>; \<open>member\<close> has the parent \<open>guest\<close> and \<open>editor\<close> the parent \<open>admin\<close>; \<open>guest\<close> may \<open>view\<close> the
  \<open>blogs\<close>, and \<open>admin\<close> holds the wildcard on them.
\<close>

definition example_db :: db where
  "example_db =
    [\<lparr>dbucket = ''meta'', dkey = ''users'', dfields = [''joed'', ''ann'', ''bob'']\<rparr>,
     \<lparr>dbucket = ''meta'', dkey = ''roles'', dfields = [''guest'', ''admin'', ''member'', ''editor'']\<rparr>,
     \<lparr>dbucket = ''users'', dkey = ''joed'', dfields = [''member'']\<rparr>,
     \<lparr>dbucket = ''roles'', dkey = ''member'', dfields = [''joed'']\<rparr>,
     \<lparr>dbucket = ''users'', dkey = ''ann'', dfields = [''editor'']\<rparr>,
     \<lparr>dbucket = ''roles'', dkey = ''editor'', dfields = [''ann'']\<rparr>,
     \<lparr>dbucket = ''users'', dkey = ''bob'', dfields = [''guest'']\<rparr>,
     \<lparr>dbucket = ''roles'', dkey = ''guest'', dfields = [''bob'']\<rparr>,
     \<lparr>dbucket = ''parents'', dkey = ''member'', dfields = [''guest'']\<rparr>,
     \<lparr>dbucket = ''parents'', dkey = ''editor'', dfields = [''admin'']\<rparr>,
     \<lparr>dbucket = ''allows_blogs'', dkey = ''guest'', dfields = [''view'']\<rparr>,
     \<lparr>dbucket = ''resources'', dkey = ''guest'', dfields = [''blogs'']\<rparr>,
     \<lparr>dbucket = ''allows_blogs'', dkey = ''admin'', dfields = [''*'']\<rparr>,
     \<lparr>dbucket = ''resources'', dkey = ''admin'', dfields = [''blogs'']\<rparr>]"

section \<open>Facts about the helpers and the backend\<close>

lemma set_uniq [simp]: "set (uniq xs) = set xs"
  by (induction xs rule: uniq.induct) auto

lemma distinct_uniq [simp]: "distinct (uniq xs)"
  by (induction xs rule: uniq.induct) auto

lemma set_lodash_union [simp]: "set (lodash_union xs ys) = set xs \<union> set ys"
  by (simp add: lodash_union_def)

lemma set_without [simp]: "set (without xs vs) = set xs - set vs"
  by (auto simp: without_def)

lemma set_backend_union:
  "set (backend_union st bucket ks) =
     (\<Union>d \<in> {d \<in> set st. matchesIn bucket ks d}. set (dfields d)) - set reserved"
  by (auto simp: backend_union_def Let_def filter_empty_conv)

lemma find_matches_Some:
  "find (matches bucket k) st = Some d \<Longrightarrow> d \<in> set st \<and> matches bucket k d"
  by (induction st) (auto split: if_splits)

lemma set_backend_get_subset:
  "k \<in> set ks \<Longrightarrow> set (backend_get st bucket k) \<subseteq> set (backend_union st bucket ks)"
  by (auto simp: backend_get_def set_backend_union matches_def matchesIn_def
      split: option.splits dest!: find_matches_Some[OF sym])


lemma set_backend_union_cong:
  "set ks = set ks' \<Longrightarrow> set (backend_union st bucket ks) = set (backend_union st bucket ks')"
  by (simp add: set_backend_union matchesIn_def)

lemma backend_union_Nil [simp]: "backend_union st bucket [] = []"
  by (simp add: backend_union_def matchesIn_def)

lemma set_rolesParents: "set (rolesParents st roles) = parents_rel st `` set roles"
  by (auto simp: parents_rel_def rolesParents_def set_backend_union matchesIn_def)

lemma checkPermissions_spec:
  assumes "checkPermissions st roles resource permissions = Some True"
  shows "spec_succeeds st roles resource permissions"
proof -
  have "True \<longrightarrow> spec_succeeds st roles resource permissions"
  proof (rule checkPermissions.raw_induct[rotated, OF assms,
        where P = "\<lambda>st roles resource permissions b. b \<longrightarrow> spec_succeeds st roles resource permissions"])
    fix cp st roles resource permissions b
    assume IH: "\<And>st' roles' resource' permissions' b'.
        cp st' roles' resource' permissions' = Some b' \<Longrightarrow>
        b' \<longrightarrow> spec_succeeds st' roles' resource' permissions'"
      and body: "(let resourcePermissions' = backend_union st (allowsBucket resource) roles in
          if ''*'' \<in> set resourcePermissions' then Some True
          else let permissions' = filter (\<lambda>p. p \<notin> set resourcePermissions') permissions in
               if permissions' = [] then Some True
               else let parents = backend_union st parents_bucket roles in
                    if parents \<noteq> [] then cp st parents resource permissions'
                    else Some False) = Some b"
    show "b \<longrightarrow> spec_succeeds st roles resource permissions"
    proof
      assume b
      show "spec_succeeds st roles resource permissions"
      proof (cases "''*'' \<in> granted st roles resource")
        case True
        then show ?thesis by (rule spec_succeeds.wildcard)
      next
        case nowild: False
        show ?thesis
        proof (cases "set permissions \<subseteq> granted st roles resource")
          case True
          then show ?thesis by (rule spec_succeeds.satisfied)
        next
          case False
          then have ne: "filter (\<lambda>p. p \<notin> granted st roles resource) permissions \<noteq> []"
            by (auto simp: filter_empty_conv)
          from body nowild ne \<open>b\<close>
          have par: "rolesParents st roles \<noteq> []"
            and rec: "cp st (rolesParents st roles) resource
                    (filter (\<lambda>p. p \<notin> granted st roles resource) permissions) = Some b"
            by (auto simp: granted_def Let_def rolesParents_def split: if_splits)
          from IH[OF rec] \<open>b\<close> par show ?thesis by (auto intro: spec_succeeds.inherited)
        qed
      qed
    qed
  qed
  then show ?thesis by simp
qed

lemma spec_checkPermissions:
  "spec_succeeds st roles resource permissions \<Longrightarrow> checkPermissions st roles resource permissions = Some True"
proof (induction rule: spec_succeeds.induct)
  case (wildcard roles resource requested)
  then show ?case by (subst checkPermissions.simps) (simp add: granted_def)
next
  case (satisfied requested roles resource)
  then show ?case
    by (subst checkPermissions.simps) (auto simp: granted_def Let_def filter_empty_conv)
next
  case (inherited roles resource requested)
  then show ?case
    by (subst checkPermissions.simps) (auto simp: granted_def Let_def rolesParents_def)
qed

lemma checkPermissions_wildcard_reach:
  assumes "(d, r) \<in> (parents_rel st)\<^sup>*" and "''*'' \<in> set (backend_get st (allowsBucket resource) r)"
  shows "d \<in> set roles \<Longrightarrow> checkPermissions st roles resource permissions = Some True"
  using assms(1)
proof (induction arbitrary: roles permissions rule: converse_rtrancl_induct)
  case base
  with assms(2) set_backend_get_subset[of r roles st "allowsBucket resource"]
  show ?case by (subst checkPermissions.simps) auto
next
  case (step d d')
  from step(1,4) have "d' \<in> set (backend_union st parents_bucket roles)"
    using set_rolesParents[of st roles] by (auto simp: rolesParents_def)
  then have ne: "backend_union st parents_bucket roles \<noteq> []"
    and rec: "\<And>ps. checkPermissions st (backend_union st parents_bucket roles) resource ps = Some True"
    using step(3) by auto
  show ?case by (subst checkPermissions.simps) (simp add: Let_def ne rec)
qed

lemma find_filter_keep: "(\<And>d. P d \<Longrightarrow> Q d) \<Longrightarrow> find P (filter Q xs) = find P xs"
  by (induction xs) auto

lemma find_filter_drop: "(\<And>d. P d \<Longrightarrow> \<not> Q d) \<Longrightarrow> find P (filter Q xs) = None"
  by (induction xs) auto

lemma find_map_same: "(\<And>d. P (f d) = P d) \<Longrightarrow> find P (map f xs) = map_option f (find P xs)"
  by (induction xs) auto

lemma find_append: "find P (xs @ ys) = (case find P xs of None \<Rightarrow> find P ys | Some x \<Rightarrow> Some x)"
  by (induction xs) auto

lemma list_ex_find: "list_ex P xs \<longleftrightarrow> find P xs \<noteq> None"
  by (induction xs) auto

lemma find_Some_holds: "find P xs = Some x \<Longrightarrow> P x"
  by (induction xs) (auto split: if_splits)

lemma matches_other: "\<not> (bucket' = bucket \<and> k' = k) \<Longrightarrow> matches bucket' k' d \<Longrightarrow> \<not> matches bucket k d"
  by (auto simp: matches_def)

lemma without_without: "without (without xs vs) ws = without (without xs ws) vs"
  by (induction xs) (auto simp: without_def)

lemma matches_new [simp]: "matches bucket' k' \<lparr>dbucket = bucket, dkey = k, dfields = fs\<rparr> \<longleftrightarrow> bucket' = bucket \<and> k' = k"
  by (auto simp: matches_def)

lemma matches_dfields_update [simp]: "matches bucket k (d\<lparr>dfields := fs\<rparr>) = matches bucket k d"
  by (simp add: matches_def)

lemma without_Nil [simp]: "without [] vs = []"
  by (simp add: without_def)

lemma find_matches_filter:
  "find (matches bucket' k') (filter (\<lambda>d. \<not> matches bucket k d) st) =
     (if bucket' = bucket \<and> k' = k then None else find (matches bucket' k') st)"
proof (cases "bucket' = bucket \<and> k' = k")
  case True
  then show ?thesis using find_filter_drop[of "matches bucket k" "\<lambda>d. \<not> matches bucket k d" st] by simp
next
  case False
  then have "find (matches bucket' k') (filter (\<lambda>d. \<not> matches bucket k d) st) = find (matches bucket' k') st"
    by (intro find_filter_keep) (auto simp: matches_def)
  with False show ?thesis by auto
qed

lemma find_matches_map:
  "find (matches bucket' k') (map (\<lambda>d. if matches bucket k d then d\<lparr>dfields := g d\<rparr> else d) st) =
     map_option (\<lambda>d. if matches bucket k d then d\<lparr>dfields := g d\<rparr> else d) (find (matches bucket' k') st)"
  by (intro find_map_same) simp

lemma find_matches_snoc:
  "find (matches bucket' k') (st @ [\<lparr>dbucket = bucket, dkey = k, dfields = fs\<rparr>]) =
     (case find (matches bucket' k') st of
        None \<Rightarrow> if bucket' = bucket \<and> k' = k then Some \<lparr>dbucket = bucket, dkey = k, dfields = fs\<rparr> else None
      | Some d \<Rightarrow> Some d)"
  by (simp add: find_append split: option.splits)

lemma find_matches_both:
  "find (matches bucket' k') st = Some d \<Longrightarrow> matches bucket k d \<longleftrightarrow> bucket' = bucket \<and> k' = k"
  by (auto dest!: find_Some_holds simp: matches_def)

lemma backend_get_updateMany_set:
  "set (backend_get (updateMany_set bucket k vs st) bucket' k') =
     (if bucket' = bucket \<and> k' = k
      then (if ''key'' \<in> set vs then {} else set (backend_get st bucket k) \<union> (set vs - set reserved))
      else set (backend_get st bucket' k'))"
proof (cases "find (matches bucket' k') st")
  case None
  then show ?thesis
    by (auto simp: backend_get_def updateMany_set_def find_matches_filter find_matches_map
        find_matches_snoc list_ex_find)
next
  case (Some d)
  note both = find_matches_both[OF Some, of bucket k]
  show ?thesis
  proof (cases "bucket' = bucket \<and> k' = k")
    case True
    with Some both show ?thesis
      by (auto simp: backend_get_def updateMany_set_def find_matches_filter find_matches_map
          list_ex_find setFields_def)
  next
    case False
    with Some both show ?thesis
      by (auto simp: backend_get_def updateMany_set_def find_matches_filter find_matches_map
          find_matches_snoc list_ex_find)
  qed
qed

lemma backend_get_updateMany_unset:
  "backend_get (updateMany_unset bucket k vs st) bucket' k' =
     (if bucket' = bucket \<and> k' = k
      then (if ''key'' \<in> set vs then [] else without (backend_get st bucket k) vs)
      else backend_get st bucket' k')"
proof (cases "find (matches bucket' k') st")
  case None
  then show ?thesis
    by (auto simp: backend_get_def updateMany_unset_def find_matches_filter find_matches_map
        find_matches_snoc list_ex_find)
next
  case (Some d)
  note both = find_matches_both[OF Some, of bucket k]
  show ?thesis
  proof (cases "bucket' = bucket \<and> k' = k")
    case True
    with Some both show ?thesis
      by (auto simp: backend_get_def updateMany_unset_def find_matches_filter find_matches_map
          list_ex_find without_without[of _ vs reserved])
  next
    case False
    with Some both show ?thesis
      by (auto simp: backend_get_def updateMany_unset_def find_matches_filter find_matches_map
          find_matches_snoc list_ex_find)
  qed
qed

lemma backend_get_deleteMany:
  "backend_get (deleteMany bucket ks st) bucket' k' =
     (if bucket' = bucket \<and> k' \<in> set ks then [] else backend_get st bucket' k')"
proof (cases "bucket' = bucket \<and> k' \<in> set ks")
  case True
  then have "find (matches bucket' k') (filter (\<lambda>d. \<not> matchesIn bucket ks d) st) = None"
    by (intro find_filter_drop) (auto simp: matches_def matchesIn_def)
  with True show ?thesis unfolding backend_get_def deleteMany_def by simp
next
  case False
  then have "find (matches bucket' k') (filter (\<lambda>d. \<not> matchesIn bucket ks d) st) = find (matches bucket' k') st"
    by (intro find_filter_keep) (auto simp: matches_def matchesIn_def)
  with False show ?thesis unfolding backend_get_def deleteMany_def by auto
qed

lemmas backend_defs = backend_begin_def backend_add_def backend_del_def backend_remove_def
  backend_end_def bindE_def

lemma allowsBucket_neq [simp]:
  "allowsBucket r \<noteq> ''meta''" "allowsBucket r \<noteq> ''resources''" "allowsBucket r \<noteq> ''parents''"
  "allowsBucket r \<noteq> ''roles''" "allowsBucket r \<noteq> ''users''"
  "''meta'' \<noteq> allowsBucket r" "''resources'' \<noteq> allowsBucket r" "''parents'' \<noteq> allowsBucket r"
  "''roles'' \<noteq> allowsBucket r" "''users'' \<noteq> allowsBucket r"
  by (auto simp: allowsBucket_def)

lemma allow_single:
  "allow st (Str role) (Str resource) (Str P) =
     (if role = ''key'' then Inl KeyNotAllowed
      else Inr (updateMany_set resources_bucket role [resource]
             (updateMany_set (allowsBucket resource) role [P]
               (updateMany_set meta_bucket ''roles'' [role] st))))"
  by (simp add: allow_def backend_defs)

lemma removeAllow_single:
  "removeAllow st role (Str resource) (Some (Str P)) =
     (let st1 = (if P \<noteq> [] then updateMany_unset (allowsBucket resource) role [P] st
                 else updateMany_unset resources_bucket role [resource]
                        (deleteMany (allowsBucket resource) [role] st))
      in if backend_get st1 (allowsBucket resource) role = []
         then updateMany_unset resources_bucket role [resource] st1 else st1)"
  by (simp add: removeAllow_def removePermissions_def backend_defs Let_def)

lemma without_self [simp]: "x \<notin> set (without xs [x])"
  by (simp add: without_def)

lemma without_eq_Nil [simp]: "without xs vs = [] \<longleftrightarrow> set xs \<subseteq> set vs"
  by (auto simp: without_def filter_empty_conv)



lemma backend_end_append: "backend_end (tr @ tr') st = backend_end tr' (backend_end tr st)"
  by (simp add: backend_end_def)





section \<open>Facts about the role hierarchy\<close>

lemma finite_parents_rel: "finite (parents_rel st)"
proof -
  have "parents_rel st \<subseteq> (dkey ` set st) \<times> (\<Union>d \<in> set st. set (dfields d))"
    by (auto simp: parents_rel_def rolesParents_def set_backend_union matchesIn_def)
  then show ?thesis by (rule finite_subset) auto
qed

lemma rank_less:
  assumes "acyclic (parents_rel st)" and "(c, p) \<in> parents_rel st"
  shows "rank st p < rank st c"
proof -
  let ?R = "parents_rel st"
  have fin: "finite (?R\<^sup>+ `` {c})"
    using finite_parents_rel[of st] by (auto intro: finite_Image)
  have sub: "?R\<^sup>+ `` {p} \<subseteq> ?R\<^sup>+ `` {c}"
    using assms(2) by (auto intro: trancl_into_trancl2)
  have "p \<in> ?R\<^sup>+ `` {c}" using assms(2) by auto
  moreover have "p \<notin> ?R\<^sup>+ `` {p}" using assms(1) by (auto simp: acyclic_def)
  ultimately have "?R\<^sup>+ `` {p} \<subset> ?R\<^sup>+ `` {c}" using sub by blast
  then show ?thesis unfolding rank_def using fin by (rule psubset_card_mono[rotated])
qed

lemma max_rank_parents:
  assumes "acyclic (parents_rel st)" and "rolesParents st roles \<noteq> []"
  shows "max_rank st (rolesParents st roles) < max_rank st roles"
proof -
  have "\<forall>p \<in> set (rolesParents st roles). rank st p < max_rank st roles"
  proof
    fix p assume "p \<in> set (rolesParents st roles)"
    then obtain c where c: "c \<in> set roles" "(c, p) \<in> parents_rel st"
      by (auto simp: set_rolesParents)
    have "rank st c \<le> max_rank st roles" unfolding max_rank_def using c(1) by simp
    with rank_less[OF assms(1) c(2)] show "rank st p < max_rank st roles" by simp
  qed
  moreover from assms(2) obtain p where "p \<in> set (rolesParents st roles)"
    by (cases "rolesParents st roles") auto
  ultimately have "0 < max_rank st roles" "\<forall>n \<in> rank st ` set (rolesParents st roles). n < max_rank st roles"
    by force+
  then show ?thesis unfolding max_rank_def[of st "rolesParents st roles"] by simp
qed

lemma trancl_Image_unfold: "R\<^sup>+ `` S = R `` S \<union> R\<^sup>+ `` (R `` S)"
  by (auto elim: converse_tranclE intro: trancl_into_trancl2)

lemma allRoles_total:
  assumes "acyclic (parents_rel st)"
  shows "\<exists>res. allRoles st roles = Some res \<and> set res = set roles \<union> (parents_rel st)\<^sup>+ `` set roles"
proof (induction "max_rank st roles" arbitrary: roles rule: less_induct)
  case less
  show ?case
  proof (cases "rolesParents st roles = []")
    case True
    then have "parents_rel st `` set roles = {}" using set_rolesParents[of st roles] by simp
    then have "(parents_rel st)\<^sup>+ `` set roles = {}" by (subst trancl_Image_unfold) simp
    with True show ?thesis by (subst allRoles.simps) simp
  next
    case False
    from less[OF max_rank_parents[OF assms False]] obtain pr where
      pr: "allRoles st (rolesParents st roles) = Some pr"
          "set pr = set (rolesParents st roles) \<union> (parents_rel st)\<^sup>+ `` set (rolesParents st roles)"
      by blast
    have "set roles \<union> set pr = set roles \<union> (parents_rel st)\<^sup>+ `` set roles"
      unfolding pr(2) set_rolesParents by (subst (2) trancl_Image_unfold) simp
    with False pr(1) show ?thesis by (subst allRoles.simps) (simp add: Let_def)
  qed
qed


lemma map_of_js_put [simp]: "map_of (js_put obj k v) = (map_of obj)(k \<mapsto> v)"
  by (induction obj k v rule: js_put.induct) (auto simp: fun_eq_iff)


lemma fst_set_js_put [simp]: "fst ` set (js_put obj k v) = insert k (fst ` set obj)"
  by (induction obj k v rule: js_put.induct) auto

lemma keyFromAllowsBucket_allowsBucket [simp]: "keyFromAllowsBucket (allowsBucket r) = r"
  by (simp add: keyFromAllowsBucket_def allowsBucket_def)

lemma allowsBucket_inject [simp]: "allowsBucket r = allowsBucket r' \<longleftrightarrow> r = r'"
  by (simp add: allowsBucket_def)





section \<open>Evaluating the examples\<close>

lemma parents_rel_docs:
  "parents_rel st = set (concat (map (\<lambda>d. map (Pair (dkey d)) (without (dfields d) reserved))
      (filter (\<lambda>d. dbucket d = parents_bucket) st)))"
  by (auto simp: parents_rel_def rolesParents_def set_backend_union matchesIn_def)

lemma acyclic_empty: "acyclic ({} :: ('a \<times> 'a) set)"
  by (simp add: acyclic_def)

lemma parents_rel_example: "parents_rel example_db = {(''member'', ''guest''), (''editor'', ''admin'')}"
  unfolding parents_rel_docs by (simp add: example_db_def reserved_def without_def)

lemma acyclic_example: "acyclic (parents_rel example_db)"
  unfolding parents_rel_example by (simp add: acyclic_insert rtrancl_insert acyclic_empty)

lemmas eval_defs = isAllowed_def areAnyRolesAllowed_def checkPermissions.simps Let_def
  backend_get_def backend_union_def matches_def matchesIn_def without_def reserved_def
  allowsBucket_def userRoles_def roleUsers_def rolesParents_def granted_def


section \<open>The decision engine\<close>

text \<open>
  Claim C1. \<^verbatim>\<open>areAnyRolesAllowed\<close> returns true exactly when the algorithm of the
  specification succeeds on a non-empty role set: the wildcard among the permissions
  granted directly, or nothing left of the requested permissions once the granted ones
  are removed, or success on the non-empty parents with what is left. An empty role set
  yields false.
\<close>

theorem areAnyRolesAllowed_follows_algorithm:
  "(areAnyRolesAllowed st roles resource permissions = Some True
      \<longleftrightarrow> spec_areAnyRolesAllowed st (makeArray roles) resource (makeArray permissions))
   \<and> (makeArray roles = [] \<longrightarrow> areAnyRolesAllowed st roles resource permissions = Some False)"
  by (auto simp: areAnyRolesAllowed_def spec_areAnyRolesAllowed_def Let_def
      intro: spec_checkPermissions checkPermissions_spec)

theorem areAnyRolesAllowed_follows_algorithm_witness:
  "spec_areAnyRolesAllowed example_db [''member''] ''blogs'' [''view'']
   \<and> areAnyRolesAllowed example_db (Arr []) ''blogs'' (Str ''view'') = Some False"
proof -
  have "areAnyRolesAllowed example_db (Arr [''member'']) ''blogs'' (Str ''view'') = Some True"
    by (simp add: eval_defs example_db_def)
  then show ?thesis
    using areAnyRolesAllowed_follows_algorithm[of example_db "Arr [''member'']" "''blogs''" "Str ''view''"]
      areAnyRolesAllowed_follows_algorithm[of example_db "Arr []" "''blogs''" "Str ''view''"]
    by simp
qed

text \<open>
  Claim C2. When the wildcard is granted to a role \<open>r\<close> on a resource, \<^verbatim>\<open>isAllowed\<close> is
  true for every requested permission set on that resource, for every user who holds
  \<open>r\<close> or a role that has \<open>r\<close> among its ancestors. (The recursion reaches \<open>r\<close> after
  finitely many levels, so the result does not even need the hierarchy to be acyclic.)
\<close>

theorem wildcard_allows_role_and_descendants:
  assumes "''*'' \<in> set (backend_get st (allowsBucket resource) r)"
    and "d \<in> set (userRoles st userId)" and "(d, r) \<in> (parents_rel st)\<^sup>*"
  shows "isAllowed st userId resource permissions = Some True"
  using assms checkPermissions_wildcard_reach[OF assms(3,1), of "userRoles st userId" "makeArray permissions"]
  by (auto simp: isAllowed_def areAnyRolesAllowed_def userRoles_def Let_def)

theorem wildcard_allows_role_and_descendants_witness:
  "''*'' \<in> set (backend_get example_db (allowsBucket ''blogs'') ''admin'')
   \<and> ''editor'' \<in> set (userRoles example_db ''ann'')
   \<and> (''editor'', ''admin'') \<in> (parents_rel example_db)\<^sup>*
   \<and> isAllowed example_db ''ann'' ''blogs'' (Arr [''delete'', ''publish'']) = Some True"
proof -
  have 1: "''*'' \<in> set (backend_get example_db (allowsBucket ''blogs'') ''admin'')"
    by (simp add: eval_defs example_db_def)
  have 2: "''editor'' \<in> set (userRoles example_db ''ann'')"
    by (simp add: eval_defs example_db_def)
  have 3: "(''editor'', ''admin'') \<in> (parents_rel example_db)\<^sup>*"
    by (rule r_into_rtrancl) (simp add: parents_rel_example)
  from 1 2 3 wildcard_allows_role_and_descendants[OF 1 2 3] show ?thesis by simp
qed

text \<open>
  Claim C3. For a user without direct roles \<^verbatim>\<open>isAllowed\<close> is false, whatever else the
  database holds; for a user with direct roles it is the result of
  \<^verbatim>\<open>areAnyRolesAllowed\<close> on those roles. Missing roles or grants are no error: with no
  grant and no parent the answer to a non-empty request is false.
\<close>

theorem isAllowed_delegates:
  "(userRoles st userId = [] \<longrightarrow> isAllowed st userId resource permissions = Some False)
   \<and> (userRoles st userId \<noteq> [] \<longrightarrow>
        isAllowed st userId resource permissions =
          areAnyRolesAllowed st (Arr (userRoles st userId)) resource permissions)
   \<and> (granted st (userRoles st userId) resource = {} \<and> rolesParents st (userRoles st userId) = []
        \<and> makeArray permissions \<noteq> [] \<longrightarrow>
        isAllowed st userId resource permissions = Some False)"
  by (auto simp: isAllowed_def userRoles_def areAnyRolesAllowed_def checkPermissions.simps
      granted_def rolesParents_def Let_def filter_empty_conv)

theorem isAllowed_delegates_witness:
  "isAllowed example_db ''nobody'' ''blogs'' (Str ''view'') = Some False
   \<and> isAllowed example_db ''joed'' ''blogs'' (Str ''view'') =
       areAnyRolesAllowed example_db (Arr [''member'']) ''blogs'' (Str ''view'')
   \<and> isAllowed example_db ''bob'' ''forums'' (Str ''view'') = Some False"
proof -
  have 1: "userRoles example_db ''nobody'' = []" and 2: "userRoles example_db ''joed'' = [''member'']"
    and 3: "granted example_db (userRoles example_db ''bob'') ''forums'' = {}"
    and 4: "rolesParents example_db (userRoles example_db ''bob'') = []"
    by (simp_all add: eval_defs example_db_def)
  show ?thesis
    using isAllowed_delegates[of example_db "''nobody''" "''blogs''" "Str ''view''"]
      isAllowed_delegates[of example_db "''joed''" "''blogs''" "Str ''view''"]
      isAllowed_delegates[of example_db "''bob''" "''forums''" "Str ''view''"] 1 2 3 4
    by simp
qed



section \<open>The role closure and the permissions of a user\<close>

text \<open>
  Claim C6. On an acyclic hierarchy \<^verbatim>\<open>_allRoles\<close> returns, and its result is the given
  roles together with every role reachable from them along parent edges. It returns the
  roles as they are exactly when the parents of the level are empty, and recurses on the
  parents otherwise.
\<close>

theorem allRoles_closure:
  assumes "acyclic (parents_rel st)"
  shows "(\<exists>res. allRoles st roles = Some res \<and> set res = set roles \<union> (parents_rel st)\<^sup>+ `` set roles)
    \<and> (rolesParents st roles = [] \<longrightarrow> allRoles st roles = Some roles)
    \<and> (rolesParents st roles \<noteq> [] \<longrightarrow>
          allRoles st roles = Option.bind (allRoles st (rolesParents st roles))
             (\<lambda>parentRoles. Some (lodash_union roles parentRoles)))"
proof (intro conjI impI)
  show "\<exists>res. allRoles st roles = Some res \<and> set res = set roles \<union> (parents_rel st)\<^sup>+ `` set roles"
    by (rule allRoles_total[OF assms])
  show "allRoles st roles = Some roles" if "rolesParents st roles = []"
    using that by (subst allRoles.simps) simp
  show "allRoles st roles = Option.bind (allRoles st (rolesParents st roles))
             (\<lambda>parentRoles. Some (lodash_union roles parentRoles))" if "rolesParents st roles \<noteq> []"
    using that by (subst allRoles.simps) (simp add: Let_def)
qed

theorem allRoles_closure_witness:
  "acyclic (parents_rel example_db)
   \<and> allRoles example_db [''member'', ''editor''] = Some [''member'', ''editor'', ''guest'', ''admin'']
   \<and> (\<exists>res. allRoles example_db [''member'', ''editor''] = Some res
         \<and> set res = set [''member'', ''editor''] \<union> (parents_rel example_db)\<^sup>+ `` set [''member'', ''editor''])"
proof -
  have "allRoles example_db [''member'', ''editor''] = Some [''member'', ''editor'', ''guest'', ''admin'']"
    by (simp add: allRoles.simps lodash_union_def eval_defs example_db_def)
  then show ?thesis
    using acyclic_example allRoles_closure[OF acyclic_example, of "[''member'', ''editor'']"]
    by blast
qed




section \<open>Grants and revocations\<close>

text \<open>
  Claim C7. From a database where the role has no permission on the resource other
  than \<open>P\<close>, \<^verbatim>\<open>allow(role, resource, P)\<close> followed by
  \<^verbatim>\<open>removeAllow(role, resource, P)\<close> leaves no permission stored for the role on the
  resource, and the resource is not among the resources of the role.
\<close>

theorem allow_then_removeAllow:
  assumes "allow st (Str role) (Str resource) (Str P) = Inr st1"
    and "set (backend_get st (allowsBucket resource) role) \<subseteq> {P}"
  shows "backend_get (removeAllow st1 role (Str resource) (Some (Str P))) (allowsBucket resource) role = []
    \<and> resource \<notin> set (backend_get (removeAllow st1 role (Str resource) (Some (Str P))) resources_bucket role)"
proof -
  from assms(1) have st1: "st1 = updateMany_set resources_bucket role [resource]
             (updateMany_set (allowsBucket resource) role [P]
               (updateMany_set meta_bucket ''roles'' [role] st))"
    by (auto simp: allow_single split: if_splits)
  have g1: "set (backend_get st1 (allowsBucket resource) role) \<subseteq> {P}"
    using assms(2) unfolding st1 by (auto simp: backend_get_updateMany_set)
  let ?sta = "if P \<noteq> [] then updateMany_unset (allowsBucket resource) role [P] st1
                 else updateMany_unset resources_bucket role [resource]
                        (deleteMany (allowsBucket resource) [role] st1)"
  have ga: "backend_get ?sta (allowsBucket resource) role = []"
  proof -
    have "set (backend_get ?sta (allowsBucket resource) role) = {}"
      using g1 by (auto simp: backend_get_updateMany_unset backend_get_deleteMany)
    then show ?thesis by simp
  qed
  have "removeAllow st1 role (Str resource) (Some (Str P)) = updateMany_unset resources_bucket role [resource] ?sta"
    unfolding removeAllow_single Let_def using ga by simp
  then show ?thesis using ga
    by (auto simp: backend_get_updateMany_unset)
qed

theorem allow_then_removeAllow_witness:
  "\<exists>st1. allow example_db (Str ''guest'') (Str ''blogs'') (Str ''view'') = Inr st1
     \<and> set (backend_get example_db (allowsBucket ''blogs'') ''guest'') \<subseteq> {''view''}
     \<and> backend_get (removeAllow st1 ''guest'' (Str ''blogs'') (Some (Str ''view'')))
          (allowsBucket ''blogs'') ''guest'' = []
     \<and> ''blogs'' \<notin> set (backend_get (removeAllow st1 ''guest'' (Str ''blogs'') (Some (Str ''view'')))
          resources_bucket ''guest'')"
proof -
  obtain st1 where 1: "allow example_db (Str ''guest'') (Str ''blogs'') (Str ''view'') = Inr st1"
    by (simp add: allow_single)
  have 2: "set (backend_get example_db (allowsBucket ''blogs'') ''guest'') \<subseteq> {''view''}"
    by (simp add: eval_defs example_db_def)
  from allow_then_removeAllow[OF 1 2] 1 2 show ?thesis by blast
qed




section \<open>The users bucket and the roles bucket\<close>




section \<open>The reserved key\<close>




end
